theory Spec2Isabelle
  imports Main "HOL-Library.AList"
begin

section \<open>The ArXiv extraction script \<^verbatim>\<open>arxiv.py\<close>\<close>

text \<open>
  The script is one function, \<^verbatim>\<open>extrair_dados_arxiv_json\<close>: a \<^verbatim>\<open>while True\<close> loop that
  fetches a result page, turns every result block into a dictionary of seven entries,
  appends it to \<^verbatim>\<open>todos_os_artigos\<close> and advances the offset by 200, followed by one
  write of the accumulated list.

  The libraries it calls (requests, BeautifulSoup, KeyBERT, the file system) are not
  part of the script. They enter the model as data or as parameters:
  \<^item> the web is a function from the requested offset to the outcome of the request;
  \<^item> a result block is the record of the answers BeautifulSoup gives to the queries
    the script asks of it;
  \<^item> the keyword model is a function from the abstract to the list of scored phrases,
    or to an exception;
  \<^item> the file system is a flag telling whether the write succeeds.
\<close>

subsection \<open>Python strings\<close>

text \<open>
  A Python \<^verbatim>\<open>str\<close> is modelled as a list of 8-bit characters, read as the code points
  below 256. On that range the three character classes the script depends on are the
  following: \<^verbatim>\<open>str.isspace\<close> (used by \<^verbatim>\<open>strip()\<close> and by \<^verbatim>\<open>\s\<close>), the decimal digits
  (\<^verbatim>\<open>\d\<close>) and the word characters (\<^verbatim>\<open>\w\<close>, which decides \<^verbatim>\<open>\b\<close>).
\<close>

definition isspace :: "char \<Rightarrow> bool" where
  "isspace c = ((of_char c :: nat) \<in> {9, 10, 11, 12, 13, 28, 29, 30, 31, 32, 133, 160})"

definition isdecimal :: "char \<Rightarrow> bool" where
  "isdecimal c = (48 \<le> (of_char c :: nat) \<and> (of_char c :: nat) \<le> 57)"

definition isalnum :: "char \<Rightarrow> bool" where
  "isalnum c = (let n = (of_char c :: nat) in
     (48 \<le> n \<and> n \<le> 57) \<or> (65 \<le> n \<and> n \<le> 90) \<or> (97 \<le> n \<and> n \<le> 122) \<or>
     n \<in> {170, 178, 179, 181, 185, 186, 188, 189, 190} \<or>
     (192 \<le> n \<and> n \<le> 214) \<or> (216 \<le> n \<and> n \<le> 246) \<or> (248 \<le> n \<and> n \<le> 255))"

text \<open>\<^verbatim>\<open>\w\<close>: alphanumeric or the underscore.\<close>

definition isword :: "char \<Rightarrow> bool" where
  "isword c = (isalnum c \<or> c = CHR ''_'')"

text \<open>\<^verbatim>\<open>s.strip()\<close>, \<^verbatim>\<open>s.strip(chars)\<close>: leading and trailing characters of the class removed.\<close>

definition strip :: "string \<Rightarrow> string" where
  "strip s = rev (dropWhile isspace (rev (dropWhile isspace s)))"

definition strip_chars :: "string \<Rightarrow> string \<Rightarrow> string" where
  "strip_chars chars s =
     rev (dropWhile (\<lambda>c. c \<in> set chars) (rev (dropWhile (\<lambda>c. c \<in> set chars) s)))"

text \<open>\<^verbatim>\<open>s.startswith(p)\<close>.\<close>

definition startswith :: "string \<Rightarrow> string \<Rightarrow> bool" where
  "startswith s p = (take (length p) s = p)"

text \<open>
  \<^verbatim>\<open>s.replace(old, '')\<close>: the occurrences of \<^verbatim>\<open>old\<close> are removed from left to right,
  without overlap. For the empty \<^verbatim>\<open>old\<close> Python inserts the empty replacement between
  the characters, which leaves \<^verbatim>\<open>s\<close> as it is.
\<close>

fun replace_vazio :: "string \<Rightarrow> string \<Rightarrow> string" where
  "replace_vazio old [] = []"
| "replace_vazio old (c # cs) =
     (if old \<noteq> [] \<and> startswith (c # cs) old
      then replace_vazio old (drop (length old - 1) cs)
      else c # replace_vazio old cs)"

text \<open>\<^verbatim>\<open>sub in s\<close>.\<close>

fun contem :: "string \<Rightarrow> string \<Rightarrow> bool" where
  "contem sub [] = (sub = [])"
| "contem sub (c # cs) = (startswith (c # cs) sub \<or> contem sub cs)"

text \<open>
  \<^verbatim>\<open>s.split(sep)\<close> for a separator of one character: every occurrence splits, so the
  result is never empty and may hold empty pieces.
\<close>

fun split :: "char \<Rightarrow> string \<Rightarrow> string list" where
  "split sep [] = [[]]"
| "split sep (c # cs) =
     (if c = sep then [] # split sep cs
      else (case split sep cs of [] \<Rightarrow> [[c]] | w # ws \<Rightarrow> (c # w) # ws))"

text \<open>\<^verbatim>\<open>re.sub(r'\s+', ' ', s)\<close>: every maximal run of whitespace becomes one space.\<close>

function re_sub_espacos :: "string \<Rightarrow> string" where
  "re_sub_espacos [] = []"
| "re_sub_espacos (c # cs) =
     (if isspace c then CHR '' '' # re_sub_espacos (dropWhile isspace cs)
      else c # re_sub_espacos cs)"
  by pat_completeness auto
termination
  by (relation "measure length") (auto simp: length_dropWhile_le less_Suc_eq_le)

text \<open>
  \<^verbatim>\<open>re.search(r"\b(20\d{2})\b", s)\<close>. The pattern has one way to match at a position, so
  the search returns the leftmost position where it matches. \<^verbatim>\<open>\b\<close> holds between two
  characters when exactly one of them is a word character, the ends of the string
  counting as non-word. The scan carries the character before the current position.
\<close>

definition limite_palavra :: "char option \<Rightarrow> char option \<Rightarrow> bool" where
  "limite_palavra antes depois =
     ((case antes of None \<Rightarrow> False | Some c \<Rightarrow> isword c) \<noteq>
      (case depois of None \<Rightarrow> False | Some c \<Rightarrow> isword c))"

fun casa_ano :: "char option \<Rightarrow> string \<Rightarrow> bool" where
  "casa_ano antes (a # b # c # d # resto) =
     (limite_palavra antes (Some a) \<and> a = CHR ''2'' \<and> b = CHR ''0'' \<and>
      isdecimal c \<and> isdecimal d \<and>
      limite_palavra (Some d) (case resto of [] \<Rightarrow> None | e # _ \<Rightarrow> Some e))"
| "casa_ano antes _ = False"

fun re_search_ano :: "char option \<Rightarrow> string \<Rightarrow> string option" where
  "re_search_ano antes [] = None"
| "re_search_ano antes (c # cs) =
     (if casa_ano antes (c # cs) then Some (take 4 (c # cs))
      else re_search_ano (Some c) cs)"

text \<open>\<^verbatim>\<open>int(s)\<close> on a string of decimal digits.\<close>

definition valor_digito :: "char \<Rightarrow> int" where
  "valor_digito c = int (of_char c) - 48"

definition int_de_digitos :: "string \<Rightarrow> int" where
  "int_de_digitos s = foldl (\<lambda>n c. 10 * n + valor_digito c) 0 s"

subsection \<open>Values, dictionaries, exceptions\<close>

text \<open>
  The values the script stores in a record: a string, a list of strings or an integer.
  A \<^verbatim>\<open>dict\<close> keeps its keys in insertion order and an assignment to an existing key
  replaces the value in place, which is what \<^const>\<open>AList.update\<close> does on an
  association list.
\<close>

datatype valor = Str string | Lista "string list" | Inteiro int

type_synonym dicionario = "(string \<times> valor) list"

text \<open>
  The exceptions of the model. \<^verbatim>\<open>RequestException\<close> is the class the first handler of the
  loop catches; every other one falls to the second handler.
\<close>

datatype excecao = RequestException | KeyError | IndexError | TypeError | OutraExcecao

text \<open>Sequencing of statements that may raise.\<close>

definition seguir :: "excecao + 'a \<Rightarrow> ('a \<Rightarrow> excecao + 'b) \<Rightarrow> excecao + 'b" where
  "seguir r f = (case r of Inl e \<Rightarrow> Inl e | Inr x \<Rightarrow> f x)"

text \<open>\<^verbatim>\<open>d[k]\<close> read, and \<^verbatim>\<open>xs[0]\<close>.\<close>

definition item :: "dicionario \<Rightarrow> string \<Rightarrow> excecao + valor" where
  "item d k = (case map_of d k of None \<Rightarrow> Inl KeyError | Some v \<Rightarrow> Inr v)"

definition primeiro :: "'a list \<Rightarrow> excecao + 'a" where
  "primeiro xs = (case xs of [] \<Rightarrow> Inl IndexError | x # _ \<Rightarrow> Inr x)"

subsection \<open>Result blocks and the keyword model\<close>

text \<open>
  A result block (\<^verbatim>\<open>artigo\<close>, one \<^verbatim>\<open>li.arxiv-result\<close>) is what the script reads of it:
  \<^item> \<^verbatim>\<open>find('p', class_='title')\<close>, \<^verbatim>\<open>find('p', class_='authors')\<close>,
    \<^verbatim>\<open>find('span', class_='abstract-full')\<close>, \<^verbatim>\<open>find("p", class_="is-size-7")\<close>: the text
    of the element found, or \<open>None\<close> when there is none;
  \<^item> the two \<^verbatim>\<open>find_all("span", class_=...)\<close> for the category tags: the texts of the
    elements found, in document order;
  \<^item> \<^verbatim>\<open>find_all("p", class_="comments is-size-7")\<close>: for each paragraph, in document
    order, the text of its first \<^verbatim>\<open>span\<close> (if any) and the text of the paragraph.
\<close>

record bloco =
  p_title :: "string option"
  p_authors :: "string option"
  span_abstract_full :: "string option"
  spans_is_link :: "string list"
  spans_is_grey :: "string list"
  p_is_size_7 :: "string option"
  ps_comments :: "(string option \<times> string) list"

text \<open>
  \<^verbatim>\<open>kw_model.extract_keywords(text, keyphrase_ngram_range=(1, 3), top_n=3)\<close>: the scored
  phrases, or an exception. The type of the scores is left open.
\<close>

type_synonym 's modelo = "string \<Rightarrow> excecao + (string \<times> 's) list"

subsection \<open>One result block (lines 59 to 124)\<close>

definition campo_titulo :: "bloco \<Rightarrow> dicionario \<Rightarrow> dicionario" where
  "campo_titulo artigo d =
     AList.update ''titulo''
       (Str (case p_title artigo of Some t \<Rightarrow> strip t | None \<Rightarrow> ''N/A'')) d"

definition campo_autores :: "bloco \<Rightarrow> dicionario \<Rightarrow> dicionario" where
  "campo_autores artigo d =
     (case p_authors artigo of
        Some t \<Rightarrow>
          (let authors_text = strip (replace_vazio ''Authors:'' t)
           in AList.update ''autores''
                (Lista (map strip (split CHR '','' (strip (re_sub_espacos authors_text))))) d)
      | None \<Rightarrow> AList.update ''autores'' (Str ''N/A'') d)"

definition campo_abstract :: "bloco \<Rightarrow> dicionario \<Rightarrow> dicionario" where
  "campo_abstract artigo d =
     (case span_abstract_full artigo of
        Some t \<Rightarrow>
          (let abstract_text = strip t;
               abstract_text =
                 (if startswith abstract_text ''Abstract:''
                  then strip (drop (length ''Abstract:'') abstract_text)
                  else abstract_text)
           in AList.update ''abstract'' (Str abstract_text) d)
      | None \<Rightarrow> AList.update ''abstract'' (Str ''N/A'') d)"

text \<open>
  Line 86. The model is called on whatever the dictionary holds under \<^verbatim>\<open>'abstract'\<close>,
  the sentinel included; the scores are dropped. A value that is not a string does not
  occur at this point; that branch is written as a \<^verbatim>\<open>TypeError\<close>.
\<close>

definition campo_keywords :: "'s modelo \<Rightarrow> dicionario \<Rightarrow> excecao + dicionario" where
  "campo_keywords kw_model d =
     seguir (item d ''abstract'') (\<lambda>v.
       case v of
         Str a \<Rightarrow> seguir (kw_model a) (\<lambda>kws. Inr (AList.update ''keywords'' (Lista (map fst kws)) d))
       | _ \<Rightarrow> Inl TypeError)"

definition campo_categorias :: "bloco \<Rightarrow> dicionario \<Rightarrow> excecao + dicionario" where
  "campo_categorias artigo d =
     (let d = AList.update ''categorias'' (Lista []) d;
          cat_spans = spans_is_link artigo;
          d = (if cat_spans \<noteq> [] then AList.update ''categorias'' (Lista (map strip cat_spans)) d
               else d);
          cat_spans = spans_is_grey artigo
      in if cat_spans \<noteq> []
         then seguir (item d ''categorias'') (\<lambda>v.
                case v of
                  Lista cs \<Rightarrow> Inr (AList.update ''categorias'' (Lista (cs @ map strip cat_spans)) d)
                | _ \<Rightarrow> Inl TypeError)
         else Inr d)"

text \<open>
  Lines 101 to 112. \<^verbatim>\<open>if year:\<close> is false for \<^verbatim>\<open>None\<close> and for the integer 0.
\<close>

definition campo_ano :: "bloco \<Rightarrow> dicionario \<Rightarrow> excecao + dicionario" where
  "campo_ano artigo d =
     (let d = AList.update ''ano'' (Str ''N/A'') d
      in case p_is_size_7 artigo of
           None \<Rightarrow> Inr d
         | Some texto \<Rightarrow>
             seguir (primeiro (split CHR '';'' texto)) (\<lambda>antes.
               let year = (case re_search_ano None antes of
                             Some grupo \<Rightarrow> Some (int_de_digitos grupo)
                           | None \<Rightarrow> None)
               in case year of
                    Some y \<Rightarrow>
                      if y \<noteq> 0 then Inr (AList.update ''ano'' (Inteiro y) d)
                      else Inr (AList.update ''ano'' (Str ''N/A'') d)
                  | None \<Rightarrow> Inr (AList.update ''ano'' (Str ''N/A'') d)))"

text \<open>
  Lines 114 to 121. The loop runs over all the paragraphs found and has no \<^verbatim>\<open>break\<close>:
  every paragraph whose first \<^verbatim>\<open>span\<close> mentions the label assigns the entry again.
\<close>

definition limpa_journal :: "string \<Rightarrow> string" where
  "limpa_journal texto =
     strip (strip_chars [CHR 0x22] (strip (replace_vazio ''Journal ref:'' texto)))"

fun laco_journal :: "(string option \<times> string) list \<Rightarrow> dicionario \<Rightarrow> dicionario" where
  "laco_journal [] d = d"
| "laco_journal ((span, texto) # ps) d =
     laco_journal ps
       (if (case span of None \<Rightarrow> False | Some s \<Rightarrow> contem ''Journal ref'' s)
        then AList.update ''journal_revista'' (Str (limpa_journal texto)) d
        else d)"

definition campo_journal :: "bloco \<Rightarrow> dicionario \<Rightarrow> dicionario" where
  "campo_journal artigo d =
     (let metadata_p = ps_comments artigo;
          d = AList.update ''journal_revista'' (Str ''N/A'') d
      in if metadata_p \<noteq> [] then laco_journal metadata_p d else d)"

text \<open>The body of the \<^verbatim>\<open>for\<close> loop up to the \<^verbatim>\<open>append\<close>: the record of one block.\<close>

definition dados_artigo :: "'s modelo \<Rightarrow> bloco \<Rightarrow> excecao + dicionario" where
  "dados_artigo kw_model artigo =
     seguir (campo_keywords kw_model
               (campo_abstract artigo (campo_autores artigo (campo_titulo artigo []))))
       (\<lambda>d. seguir (campo_categorias artigo d)
         (\<lambda>d. seguir (campo_ano artigo d)
           (\<lambda>d. Inr (campo_journal artigo d))))"

subsection \<open>The pages and the loop (lines 35 to 136)\<close>

text \<open>
  The \<^verbatim>\<open>for\<close> loop over the blocks of a page. A record is appended as soon as it is
  complete; an exception leaves the loop with the records appended so far.
\<close>

fun processar :: "'s modelo \<Rightarrow> bloco list \<Rightarrow> dicionario list \<Rightarrow> excecao option \<times> dicionario list" where
  "processar kw_model [] todos = (None, todos)"
| "processar kw_model (artigo # resto) todos =
     (case dados_artigo kw_model artigo of
        Inl e \<Rightarrow> (Some e, todos)
      | Inr d \<Rightarrow> processar kw_model resto (todos @ [d]))"

text \<open>
  The web answers the request for the page at an offset (the URL is the base URL with
  \<^verbatim>\<open>&start=\<close> and the offset) with an exception or with the blocks that
  \<^verbatim>\<open>find_all('li', class_='arxiv-result')\<close> finds in the body.
\<close>

type_synonym web = "nat \<Rightarrow> excecao + bloco list"

text \<open>
  How the loop was left: by the \<^verbatim>\<open>break\<close> of the empty page, or by the \<^verbatim>\<open>break\<close> of one of
  the two handlers (which of the two is decided by the exception).
\<close>

datatype parada = Concluida | Interrompida excecao

text \<open>
  The state of a finished loop: how it stopped, the accumulator, and the offsets
  requested, in order.
\<close>

record fim =
  motivo :: parada
  todos_os_artigos :: "dicionario list"
  requisicoes :: "nat list"

text \<open>
  One iteration of \<^verbatim>\<open>while True\<close>, from the offset, the accumulator and the requests
  made so far: either the loop is left (\<open>Inl\<close>), or the next iteration starts 200
  further (\<open>Inr\<close>). The pause between two pages changes nothing that is modelled.
\<close>

definition passo ::
  "web \<Rightarrow> 's modelo \<Rightarrow> nat \<Rightarrow> dicionario list \<Rightarrow> nat list \<Rightarrow>
     fim + (nat \<times> dicionario list \<times> nat list)" where
  "passo get kw_model start todos reqs =
     (case get start of
        Inl e \<Rightarrow>
          Inl \<lparr>motivo = Interrompida e, todos_os_artigos = todos, requisicoes = reqs @ [start]\<rparr>
      | Inr artigos_na_pagina \<Rightarrow>
          if artigos_na_pagina = []
          then Inl \<lparr>motivo = Concluida, todos_os_artigos = todos, requisicoes = reqs @ [start]\<rparr>
          else (case processar kw_model artigos_na_pagina todos of
                  (Some e, todos') \<Rightarrow>
                    Inl \<lparr>motivo = Interrompida e, todos_os_artigos = todos',
                         requisicoes = reqs @ [start]\<rparr>
                | (None, todos') \<Rightarrow> Inr (start + 200, todos', reqs @ [start])))"

text \<open>
  \<^verbatim>\<open>while True\<close>: the loop need not end (a web that never runs out of results), so it is
  a partial function; \<open>None\<close> is the run that never leaves the loop.
\<close>

partial_function (option) laco ::
  "web \<Rightarrow> 's modelo \<Rightarrow> nat \<Rightarrow> dicionario list \<Rightarrow> nat list \<Rightarrow> fim option" where
  "laco get kw_model start todos reqs =
     (case passo get kw_model start todos reqs of
        Inl f \<Rightarrow> Some f
      | Inr (start', todos', reqs') \<Rightarrow> laco get kw_model start' todos' reqs')"

subsection \<open>Saving (lines 138 to 150) and the whole function\<close>

text \<open>
  The file is written only when the accumulator is not empty, and the write may fail
  with an \<^verbatim>\<open>IOError\<close>, which is caught and reported.
\<close>

datatype saida = Gravado "dicionario list" | ErroAoSalvar | NenhumArtigo

definition salvar :: "bool \<Rightarrow> dicionario list \<Rightarrow> saida" where
  "salvar disco_ok todos =
     (if todos \<noteq> [] then (if disco_ok then Gravado todos else ErroAoSalvar)
      else NenhumArtigo)"

text \<open>
  The function: the loop from offset 0 with an empty accumulator, then the save. The
  result is how the loop stopped, the offsets requested and what became of the file.
\<close>

definition extrair_dados_arxiv_json ::
  "web \<Rightarrow> 's modelo \<Rightarrow> bool \<Rightarrow> (parada \<times> nat list \<times> saida) option" where
  "extrair_dados_arxiv_json get kw_model disco_ok =
     (case laco get kw_model 0 [] [] of
        None \<Rightarrow> None
      | Some f \<Rightarrow> Some (motivo f, requisicoes f, salvar disco_ok (todos_os_artigos f)))"

subsection \<open>Notions of the specification\<close>

text \<open>
  The state in which the loop starts its iteration number \<open>n\<close> (from 0), when the run
  gets that far: the pages fetched in a run are those of the iterations it reaches.
\<close>

fun iteracao :: "web \<Rightarrow> 's modelo \<Rightarrow> nat \<Rightarrow> (nat \<times> dicionario list \<times> nat list) option" where
  "iteracao get kw_model 0 = Some (0, [], [])"
| "iteracao get kw_model (Suc n) =
     (case iteracao get kw_model n of
        None \<Rightarrow> None
      | Some (start, todos, reqs) \<Rightarrow>
          (case passo get kw_model start todos reqs of
             Inl f \<Rightarrow> None
           | Inr e \<Rightarrow> Some e))"

text \<open>The records a page contributes: those of its blocks, up to the first exception.\<close>

definition registros_da_pagina :: "web \<Rightarrow> 's modelo \<Rightarrow> nat \<Rightarrow> dicionario list" where
  "registros_da_pagina get kw_model i =
     (case get (200 * i) of Inl e \<Rightarrow> [] | Inr artigos \<Rightarrow> snd (processar kw_model artigos []))"

text \<open>The seven keys of a record, in the order of their first assignment.\<close>

definition sete_campos :: "string list" where
  "sete_campos =
     [''titulo'', ''autores'', ''abstract'', ''keywords'', ''categorias'', ''ano'',
      ''journal_revista'']"

text \<open>
  The authors as the specification words them: the label removed, the whitespace runs
  collapsed, the text split at the commas, every piece trimmed. The collapsing is
  written here on its own, as one pass that remembers whether it stands inside a run
  of whitespace: the first character of a run gives one space, the others nothing.
\<close>

fun colapsar :: "bool \<Rightarrow> string \<Rightarrow> string" where
  "colapsar em_branco [] = []"
| "colapsar em_branco (c # cs) =
     (if isspace c then (if em_branco then colapsar True cs else CHR '' '' # colapsar True cs)
      else c # colapsar False cs)"

definition spec_autores :: "string \<Rightarrow> string list" where
  "spec_autores t = map strip (split CHR '','' (colapsar False (replace_vazio ''Authors:'' t)))"

text \<open>
  A standalone four-digit token \<^verbatim>\<open>20dd\<close> at position \<open>i\<close> of a text: the four characters
  are there, and neither the character before nor the character after (if any) is a
  word character.
\<close>

definition token_ano :: "string \<Rightarrow> nat \<Rightarrow> bool" where
  "token_ano s i =
     (i + 4 \<le> length s \<and> s ! i = CHR ''2'' \<and> s ! (i + 1) = CHR ''0'' \<and>
      isdecimal (s ! (i + 2)) \<and> isdecimal (s ! (i + 3)) \<and>
      (i = 0 \<or> \<not> isword (s ! (i - 1))) \<and>
      (i + 4 = length s \<or> \<not> isword (s ! (i + 4))))"

text \<open>
  The integer a four-digit token denotes: a digit is worth its place in the string of
  the ten digits, and the four positions weigh 1000, 100, 10 and 1.
\<close>

definition digito :: "char \<Rightarrow> int" where
  "digito c = int (length (takeWhile (\<lambda>x. x \<noteq> c) ''0123456789''))"

definition valor_do_token :: "string \<Rightarrow> nat \<Rightarrow> int" where
  "valor_do_token s i =
     1000 * digito (s ! i) + 100 * digito (s ! (i + 1)) + 10 * digito (s ! (i + 2)) +
     digito (s ! (i + 3))"

text \<open>The text before the first semicolon.\<close>

definition antes_do_ponto_e_virgula :: "string \<Rightarrow> string" where
  "antes_do_ponto_e_virgula s = takeWhile (\<lambda>c. c \<noteq> CHR '';'') s"

text \<open>
  The comments paragraphs that carry the journal reference: those whose first \<^verbatim>\<open>span\<close>
  mentions the label.
\<close>

definition com_journal_ref :: "(string option \<times> string) list \<Rightarrow> (string option \<times> string) list" where
  "com_journal_ref ps =
     filter (\<lambda>p. case fst p of None \<Rightarrow> False | Some s \<Rightarrow> contem ''Journal ref'' s) ps"

text \<open>The blocks of the page at index \<open>i\<close> (offset \<open>200 * i\<close>), none when the request fails.\<close>

definition blocos_da_pagina :: "web \<Rightarrow> nat \<Rightarrow> bloco list" where
  "blocos_da_pagina get i = (case get (200 * i) of Inl e \<Rightarrow> [] | Inr artigos \<Rightarrow> artigos)"

text \<open>
  A record with the seven keys, in order and each with a value; and a record whose year
  is the sentinel or an integer from 2000 to 2099.
\<close>

definition tem_sete_campos :: "dicionario \<Rightarrow> bool" where
  "tem_sete_campos d = (map fst d = sete_campos \<and> list_all (\<lambda>k. map_of d k \<noteq> None) sete_campos)"

definition ano_valido :: "dicionario \<Rightarrow> bool" where
  "ano_valido d =
     (case item d ''ano'' of
        Inr (Str s) \<Rightarrow> s = ''N/A''
      | Inr (Inteiro y) \<Rightarrow> 2000 \<le> y \<and> y \<le> 2099
      | _ \<Rightarrow> False)"

subsection \<open>The entries of a record in closed form\<close>

text \<open>
  What the seven assignments of the loop body leave under each key, written as one
  expression of the block. The lemmas below prove that the record built by
  \<^const>\<open>dados_artigo\<close> is made of these values.
\<close>

definition texto_abstract :: "bloco \<Rightarrow> string" where
  "texto_abstract artigo =
     (case span_abstract_full artigo of
        None \<Rightarrow> ''N/A''
      | Some t \<Rightarrow>
          if startswith (strip t) ''Abstract:'' then strip (drop (length ''Abstract:'') (strip t)) else strip t)"

definition valor_titulo :: "bloco \<Rightarrow> valor" where
  "valor_titulo artigo = Str (case p_title artigo of Some t \<Rightarrow> strip t | None \<Rightarrow> ''N/A'')"

definition valor_autores :: "bloco \<Rightarrow> valor" where
  "valor_autores artigo =
     (case p_authors artigo of
        None \<Rightarrow> Str ''N/A''
      | Some t \<Rightarrow>
          Lista (map strip (split CHR '','' (strip (re_sub_espacos (strip (replace_vazio ''Authors:'' t)))))))"

definition valor_ano :: "bloco \<Rightarrow> valor" where
  "valor_ano artigo =
     (case p_is_size_7 artigo of
        None \<Rightarrow> Str ''N/A''
      | Some texto \<Rightarrow>
          (case re_search_ano None (antes_do_ponto_e_virgula texto) of
             None \<Rightarrow> Str ''N/A''
           | Some grupo \<Rightarrow> Inteiro (int_de_digitos grupo)))"

definition valor_journal :: "bloco \<Rightarrow> valor" where
  "valor_journal artigo =
     (case com_journal_ref (ps_comments artigo) of
        [] \<Rightarrow> Str ''N/A''
      | m # ms \<Rightarrow> Str (limpa_journal (snd (last (m # ms)))))"

subsection \<open>Inputs of the examples\<close>

definition bloco_vazio :: bloco where
  "bloco_vazio =
     \<lparr>p_title = None, p_authors = None, span_abstract_full = None, spans_is_link = [],
      spans_is_grey = [], p_is_size_7 = None, ps_comments = []\<rparr>"

text \<open>
  Two stand-ins for the keyword model: one that finds nothing, one that fails on the
  abstract \<^verbatim>\<open>x\<close>.
\<close>

definition modelo_mudo :: "nat modelo" where
  "modelo_mudo t = Inr []"

definition modelo_falho :: "nat modelo" where
  "modelo_falho t = (if t = ''x'' then Inl OutraExcecao else Inr [])"

text \<open>The record of the block in which nothing is found, under the silent model.\<close>

definition registro_vazio :: dicionario where
  "registro_vazio =
     [(''titulo'', Str ''N/A''), (''autores'', Str ''N/A''), (''abstract'', Str ''N/A''),
      (''keywords'', Lista []), (''categorias'', Lista []), (''ano'', Str ''N/A''),
      (''journal_revista'', Str ''N/A'')]"

text \<open>
  Webs: one whose every request fails; one with a page of one block and nothing after;
  one with two pages of 200 blocks and a failing third request; one whose first page
  has three blocks, the third with the abstract \<^verbatim>\<open>x\<close>.
\<close>

definition web_fora_do_ar :: web where
  "web_fora_do_ar start = Inl RequestException"

definition web_uma_pagina :: web where
  "web_uma_pagina start = (if start = 0 then Inr [bloco_vazio] else Inr [])"

definition web_duas_paginas :: web where
  "web_duas_paginas start =
     (if start = 0 \<or> start = 200 then Inr (replicate 200 bloco_vazio)
      else Inl RequestException)"

definition web_tres_blocos :: web where
  "web_tres_blocos start =
     (if start = 0
      then Inr [bloco_vazio, bloco_vazio, bloco_vazio\<lparr>span_abstract_full := Some ''x''\<rparr>]
      else Inr [])"

text \<open>
  The block of the examples of the specification, with its record under the silent
  model; a block with two journal paragraphs; a block whose category tag has blanks
  around its text; a web whose only page holds the example block.
\<close>

definition bloco_exemplo :: bloco where
  "bloco_exemplo =
     \<lparr>p_title = Some ''Quantum walks'',
      p_authors = Some ''Authors: A. Smith, B. Jones,  C. Lee'',
      span_abstract_full = Some ''Abstract: We study walks.'',
      spans_is_link = [''cs.AI'', ''quant-ph''],
      spans_is_grey = [''physics.gen-ph''],
      p_is_size_7 = Some ''Submitted on 3 Jan 2022; revised 10 Feb 2023'',
      ps_comments =
        [(Some ''Journal ref:'',
          ''Journal ref: '' @ [CHR 0x22] @ ''Phys. Rev. A 101, 2020'' @ [CHR 0x22])]\<rparr>"

definition registro_exemplo :: dicionario where
  "registro_exemplo =
     [(''titulo'', Str ''Quantum walks''),
      (''autores'', Lista [''A. Smith'', ''B. Jones'', ''C. Lee'']),
      (''abstract'', Str ''We study walks.''),
      (''keywords'', Lista []),
      (''categorias'', Lista [''cs.AI'', ''quant-ph'', ''physics.gen-ph'']),
      (''ano'', Inteiro 2022),
      (''journal_revista'', Str ''Phys. Rev. A 101, 2020'')]"

definition bloco_dois_journals :: bloco where
  "bloco_dois_journals =
     bloco_vazio\<lparr>ps_comments :=
       [(Some ''Journal ref:'', ''Journal ref: A''), (Some ''Journal ref:'', ''Journal ref: B'')]\<rparr>"

definition bloco_tag_com_espacos :: bloco where
  "bloco_tag_com_espacos = bloco_vazio\<lparr>spans_is_link := ['' cs.AI '']\<rparr>"

definition web_exemplo :: web where
  "web_exemplo start = (if start = 0 then Inr [bloco_exemplo] else Inr [])"

section \<open>Lemmas\<close>

subsection \<open>Strings\<close>

lemma split_Cons: "\<exists>w ws. split sep s = w # ws"
  by (induction s) (auto split: list.splits)

lemma primeiro_split: "primeiro (split sep s) = Inr (takeWhile (\<lambda>c. c \<noteq> sep) s)"
proof (induction s)
  case Nil
  then show ?case by (simp add: primeiro_def)
next
  case (Cons c s)
  obtain w ws where w: "split sep s = w # ws" using split_Cons by blast
  with Cons show ?case by (simp add: primeiro_def)
qed

lemma isdecimal_isword: "isdecimal c \<Longrightarrow> isword c"
  by (auto simp: isdecimal_def isword_def isalnum_def Let_def)

lemma isword_2: "isword CHR ''2''"
  by (simp add: isword_def isalnum_def)

lemma casa_ano_token:
  assumes "antes = (if p = [] then None else Some (last p))"
  shows "casa_ano antes s = token_ano (p @ s) (length p)"
proof (cases "(antes, s)" rule: casa_ano.cases)
  case (1 antes' a b c d resto)
  then have s: "s = a # b # c # d # resto" by simp
  have antes: "(case antes of None \<Rightarrow> False | Some c \<Rightarrow> isword c) = (p \<noteq> [] \<and> isword ((p @ s) ! (length p - 1)))"
    using assms by (auto simp: nth_append last_conv_nth)
  have depois: "(case (case resto of [] \<Rightarrow> None | e # _ \<Rightarrow> Some e) of None \<Rightarrow> False | Some c \<Rightarrow> isword c)
      = (length p + 4 \<noteq> length (p @ s) \<and> isword ((p @ s) ! (length p + 4)))"
    using s by (cases resto) (auto simp: nth_append)
  have nths: "(p @ s) ! length p = a" "(p @ s) ! (length p + 1) = b"
    "(p @ s) ! (length p + 2) = c" "(p @ s) ! (length p + 3) = d"
    using s by (simp_all add: nth_append)
  show ?thesis
    unfolding token_ano_def nths
    using antes depois isword_2 isdecimal_isword[of d] s
    by (auto simp: limite_palavra_def)
qed (simp_all add: token_ano_def)

lemma re_search_ano_token:
  assumes "antes = (if p = [] then None else Some (last p))"
  shows "(case re_search_ano antes s of
            None \<Rightarrow> \<forall>i\<ge>length p. \<not> token_ano (p @ s) i
          | Some g \<Rightarrow> \<exists>i\<ge>length p. token_ano (p @ s) i \<and>
              (\<forall>j. length p \<le> j \<and> j < i \<longrightarrow> \<not> token_ano (p @ s) j) \<and>
              g = take 4 (drop i (p @ s)))"
  using assms
proof (induction s arbitrary: p antes)
  case Nil
  then show ?case by (simp add: token_ano_def)
next
  case (Cons c cs)
  have tok: "casa_ano antes (c # cs) = token_ano (p @ c # cs) (length p)"
    using casa_ano_token[OF Cons.prems] .
  show ?case
  proof (cases "casa_ano antes (c # cs)")
    case True
    with tok show ?thesis by (auto intro!: exI[of _ "length p"])
  next
    case False
    have IH: "(case re_search_ano (Some c) cs of
            None \<Rightarrow> \<forall>i\<ge>length (p @ [c]). \<not> token_ano ((p @ [c]) @ cs) i
          | Some g \<Rightarrow> \<exists>i\<ge>length (p @ [c]). token_ano ((p @ [c]) @ cs) i \<and>
              (\<forall>j. length (p @ [c]) \<le> j \<and> j < i \<longrightarrow> \<not> token_ano ((p @ [c]) @ cs) j) \<and>
              g = take 4 (drop i ((p @ [c]) @ cs)))"
      by (rule Cons.IH) simp
    have le: "\<And>j. length p \<le> j \<Longrightarrow> j = length p \<or> Suc (length p) \<le> j" by arith
    show ?thesis
    proof (cases "re_search_ano (Some c) cs")
      case None
      with IH False tok show ?thesis
        by (auto dest: le)
    next
      case (Some g)
      with IH obtain i where i: "Suc (length p) \<le> i" "token_ano (p @ c # cs) i"
        "\<forall>j. Suc (length p) \<le> j \<and> j < i \<longrightarrow> \<not> token_ano (p @ c # cs) j"
        "g = take 4 (drop i (p @ c # cs))" by auto
      have "\<forall>j. length p \<le> j \<and> j < i \<longrightarrow> \<not> token_ano (p @ c # cs) j"
        using i(3) False tok by (auto dest: le)
      with i Some False show ?thesis
        by (auto intro!: exI[of _ i])
    qed
  qed
qed

lemma re_search_ano_inicio:
  "(case re_search_ano None s of
      None \<Rightarrow> \<forall>i. \<not> token_ano s i
    | Some g \<Rightarrow> \<exists>i. token_ano s i \<and> (\<forall>j<i. \<not> token_ano s j) \<and> g = take 4 (drop i s))"
  using re_search_ano_token[of None "[]" s] by (auto split: option.splits)

lemma int_de_digitos_token:
  assumes "token_ano s i"
  shows "int_de_digitos (take 4 (drop i s)) = 2000 + 10 * valor_digito (s ! (i + 2)) + valor_digito (s ! (i + 3))"
proof -
  from assms have len: "i + 4 \<le> length s" by (simp add: token_ano_def)
  then have "drop i s = s ! i # s ! (i + 1) # s ! (i + 2) # s ! (i + 3) # drop (i + 4) s"
    using Cons_nth_drop_Suc[of i s] Cons_nth_drop_Suc[of "i + 1" s]
      Cons_nth_drop_Suc[of "i + 2" s] Cons_nth_drop_Suc[of "i + 3" s]
    by (simp add: numeral_eq_Suc)
  then have "take 4 (drop i s) = [s ! i, s ! (i + 1), s ! (i + 2), s ! (i + 3)]"
    by simp
  with assms show ?thesis
    by (simp add: int_de_digitos_def token_ano_def valor_digito_def)
qed

lemma valor_digito_faixa: "isdecimal c \<Longrightarrow> 0 \<le> valor_digito c \<and> valor_digito c \<le> 9"
  by (auto simp: isdecimal_def valor_digito_def)

lemma ano_na_faixa:
  assumes "token_ano s i"
  shows "2000 \<le> int_de_digitos (take 4 (drop i s)) \<and> int_de_digitos (take 4 (drop i s)) \<le> 2099"
  using int_de_digitos_token[OF assms] assms
    valor_digito_faixa[of "s ! (i + 2)"] valor_digito_faixa[of "s ! (i + 3)"]
  by (simp add: token_ano_def)

lemma valor_digito_digito:
  assumes "isdecimal c"
  shows "valor_digito c = digito c"
proof -
  let ?n = "of_char c :: nat"
  have "list_all (\<lambda>n. valor_digito (char_of n) = digito (char_of n)) [48..<58::nat]"
    by code_simp
  then have "\<forall>n\<in>set [48..<58::nat]. valor_digito (char_of n) = digito (char_of n)"
    by (simp only: list_all_iff)
  moreover from assms have "48 \<le> ?n \<and> ?n < 58" by (simp add: isdecimal_def)
  then have "?n \<in> set [48..<58]" by (simp only: set_upt atLeastLessThan_iff)
  ultimately have "valor_digito (char_of ?n) = digito (char_of ?n)" by blast
  then show ?thesis by simp
qed

lemma int_de_digitos_valor_do_token:
  assumes "token_ano s i"
  shows "int_de_digitos (take 4 (drop i s)) = valor_do_token s i"
proof -
  from assms have "s ! i = CHR ''2''" "s ! (i + 1) = CHR ''0''"
    "isdecimal (s ! (i + 2))" "isdecimal (s ! (i + 3))"
    by (simp_all add: token_ano_def)
  with int_de_digitos_token[OF assms] show ?thesis
    by (simp add: valor_do_token_def valor_digito_digito) (simp add: digito_def)
qed

lemma strip_espacos_antes:
  assumes "\<forall>x\<in>set z. isspace x"
  shows "strip (z @ p) = strip p"
proof -
  have "dropWhile isspace (z @ p) = dropWhile isspace p"
    using assms by (induction z) auto
  then show ?thesis by (simp add: strip_def)
qed

lemma strip_espacos_depois:
  assumes "\<forall>x\<in>set z. isspace x"
  shows "strip (p @ z) = strip p"
proof (cases "\<forall>x\<in>set p. isspace x")
  case True
  then have a: "dropWhile isspace p = []" by simp
  from True assms have "\<forall>x\<in>set (p @ z). isspace x" by auto
  then have b: "dropWhile isspace (p @ z) = []" by (simp only: dropWhile_eq_Nil_conv)
  show ?thesis unfolding strip_def a b ..
next
  case False
  then obtain x where "x \<in> set p" "\<not> isspace x" by blast
  then have "dropWhile isspace (p @ z) = dropWhile isspace p @ z"
    by (simp add: dropWhile_append1)
  moreover have "dropWhile isspace (rev z @ ys) = dropWhile isspace ys" for ys
    by (rule dropWhile_append2) (use assms in simp)
  ultimately show ?thesis by (simp add: strip_def)
qed

lemma split_espacos_antes:
  assumes "c \<notin> set z"
  shows "split c (z @ y) = (case split c y of w # ws \<Rightarrow> (z @ w) # ws | [] \<Rightarrow> [])"
  using assms split_Cons[of c y]
  by (induction z) (auto split: list.splits)

lemma split_espacos_depois:
  assumes "c \<notin> set z"
  shows "split c (y @ z) = butlast (split c y) @ [last (split c y) @ z]"
proof (induction y)
  case Nil
  from assms have "split c z = [z]"
    using split_Cons[of c] by (induction z) (auto split: list.splits)
  then show ?case by simp
next
  case (Cons a y)
  obtain w ws where w: "split c y = w # ws" using split_Cons by blast
  obtain w' ws' where w': "split c (y @ z) = w' # ws'" using split_Cons by blast
  from Cons w w' show ?case
    by (cases ws) (auto split: if_splits)
qed

lemma map_strip_split_antes:
  assumes "\<forall>x\<in>set z. isspace x" and "\<not> isspace c"
  shows "map strip (split c (z @ y)) = map strip (split c y)"
proof -
  from assms have "c \<notin> set z" by blast
  then show ?thesis
    using split_Cons[of c y] assms(1)
    by (auto simp: split_espacos_antes strip_espacos_antes)
qed

lemma map_strip_split_depois:
  assumes "\<forall>x\<in>set z. isspace x" and "\<not> isspace c"
  shows "map strip (split c (y @ z)) = map strip (split c y)"
proof -
  from assms have c: "c \<notin> set z" by blast
  obtain w ws where w: "split c y = w # ws" using split_Cons by blast
  have "map strip (butlast (w # ws) @ [last (w # ws) @ z]) =
        map strip (butlast (w # ws) @ [last (w # ws)])"
    using assms(1) by (simp add: strip_espacos_depois)
  then show ?thesis
    unfolding split_espacos_depois[OF c] w by (simp only: append_butlast_last_id[OF list.distinct(2)])
qed


lemma map_strip_split_strip:
  assumes "\<not> isspace c"
  shows "map strip (split c (strip s)) = map strip (split c s)"
proof -
  let ?l = "dropWhile isspace s"
  have "?l = strip s @ rev (takeWhile isspace (rev ?l))"
    unfolding strip_def
    by (metis rev_append rev_rev_ident takeWhile_dropWhile_id)
  then have "map strip (split c ?l) = map strip (split c (strip s))"
    using map_strip_split_depois[of "rev (takeWhile isspace (rev ?l))" c "strip s"] assms
    by (metis set_rev set_takeWhileD)
  moreover have "map strip (split c (takeWhile isspace s @ ?l)) = map strip (split c ?l)"
    using map_strip_split_antes[of "takeWhile isspace s" c ?l] assms
    by (metis set_takeWhileD)
  ultimately show ?thesis by simp
qed

lemma re_sub_espacos_so_espacos:
  "\<forall>x\<in>set z. isspace x \<Longrightarrow> re_sub_espacos z = (if z = [] then [] else '' '')"
  by (cases z) (simp_all add: dropWhile_eq_Nil_conv[THEN iffD2])

lemma re_sub_espacos_append:
  "y = [] \<or> \<not> isspace (last y) \<Longrightarrow> re_sub_espacos (y @ z) = re_sub_espacos y @ re_sub_espacos z"
proof (induction y rule: re_sub_espacos.induct)
  case 1
  then show ?case by simp
next
  case (2 c cs)
  show ?case
  proof (cases "isspace c")
    case True
    with "2.prems" have ne: "cs \<noteq> []" and l: "\<not> isspace (last cs)"
      by (auto split: if_splits)
    then have ex: "last cs \<in> set cs" by simp
    with l have d: "dropWhile isspace (cs @ z) = dropWhile isspace cs @ z"
      by (simp add: dropWhile_append1)
    from ex l have dn: "dropWhile isspace cs \<noteq> []"
      by (auto simp: dropWhile_eq_Nil_conv)
    then have "last (dropWhile isspace cs) = last cs"
      by (metis last_appendR takeWhile_dropWhile_id)
    with l dn "2.IH"(1)[OF True] have
      "re_sub_espacos (dropWhile isspace cs @ z) = re_sub_espacos (dropWhile isspace cs) @ re_sub_espacos z"
      by simp
    with True d show ?thesis by simp
  next
    case False
    with "2.prems" have "cs = [] \<or> \<not> isspace (last cs)" by (auto split: if_splits)
    with "2.IH"(2)[OF False] False show ?thesis by simp
  qed
qed

lemma re_sub_espacos_dropWhile:
  "re_sub_espacos (dropWhile isspace s) = dropWhile isspace (re_sub_espacos s)"
proof (cases s)
  case Nil
  then show ?thesis by simp
next
  case (Cons c cs)
  have nl: "dropWhile isspace (re_sub_espacos t) = re_sub_espacos t"
    if "t = [] \<or> \<not> isspace (hd t)" for t
    using that by (cases t) auto
  have hd: "dropWhile isspace t = [] \<or> \<not> isspace (hd (dropWhile isspace t))" for t
    using hd_dropWhile[of isspace t] by blast
  show ?thesis
  proof (cases "isspace c")
    case True
    have "isspace CHR '' ''" by (simp add: isspace_def)
    with True Cons nl[OF hd[of cs]] show ?thesis by simp
  next
    case False
    with Cons show ?thesis by simp
  qed
qed

lemma autores_refina:
  "map strip (split CHR '','' (strip (re_sub_espacos (strip u)))) =
   map strip (split CHR '','' (re_sub_espacos u))"
proof -
  have c: "\<not> isspace CHR '',''" by (simp add: isspace_def)
  let ?l = "dropWhile isspace u"
  let ?z = "rev (takeWhile isspace (rev ?l))"
  have z: "\<forall>x\<in>set ?z. isspace x" by (metis set_rev set_takeWhileD)
  have l: "?l = strip u @ ?z"
    unfolding strip_def by (metis rev_append rev_rev_ident takeWhile_dropWhile_id)
  have fim: "strip u = [] \<or> \<not> isspace (last (strip u))"
    unfolding strip_def using hd_dropWhile[of isspace "rev ?l"]
    by (cases "dropWhile isspace (rev ?l) = []") (simp_all add: last_rev)
  have sz: "\<forall>x\<in>set (re_sub_espacos ?z). isspace x"
    using re_sub_espacos_so_espacos[OF z] by (simp add: isspace_def)
  have "map strip (split CHR '','' (strip (re_sub_espacos (strip u)))) =
        map strip (split CHR '','' (re_sub_espacos (strip u)))"
    by (rule map_strip_split_strip[OF c])
  also have "\<dots> = map strip (split CHR '','' (re_sub_espacos (strip u) @ re_sub_espacos ?z))"
    by (rule map_strip_split_depois[OF sz c, symmetric])
  also have "\<dots> = map strip (split CHR '','' (re_sub_espacos ?l))"
    using re_sub_espacos_append[OF fim, of ?z] l by simp
  also have "\<dots> = map strip (split CHR '','' (dropWhile isspace (re_sub_espacos u)))"
    by (simp only: re_sub_espacos_dropWhile)
  also have "\<dots> = map strip (split CHR '','' (re_sub_espacos u))"
  proof -
    let ?s = "re_sub_espacos u"
    have "map strip (split CHR '','' (takeWhile isspace ?s @ dropWhile isspace ?s)) =
          map strip (split CHR '','' (dropWhile isspace ?s))"
      by (rule map_strip_split_antes[OF _ c]) (metis set_takeWhileD)
    then show ?thesis by simp
  qed
  finally show ?thesis .
qed

lemma colapsar_em_branco:
  "colapsar True s = colapsar False (dropWhile isspace s)"
proof (induction s)
  case Nil
  then show ?case by simp
next
  case (Cons c cs)
  then show ?case by simp
qed

lemma re_sub_espacos_colapsar: "re_sub_espacos s = colapsar False s"
proof (induction s rule: re_sub_espacos.induct)
  case 1
  then show ?case by simp
next
  case (2 c cs)
  then show ?case by (simp add: colapsar_em_branco)
qed

lemma autores_refina_spec:
  "map strip (split CHR '','' (strip (re_sub_espacos (strip (replace_vazio ''Authors:'' t))))) =
   spec_autores t"
  by (simp add: spec_autores_def autores_refina re_sub_espacos_colapsar[symmetric])

subsection \<open>The record of a block\<close>

lemma update_ultimo:
  "k \<notin> fst ` set xs \<Longrightarrow> AList.update k v (xs @ [(k, u)]) = xs @ [(k, v)]"
  by (induction xs) auto

lemma update_novo:
  "k \<notin> fst ` set xs \<Longrightarrow> AList.update k v xs = xs @ [(k, v)]"
  by (induction xs) auto

lemma laco_journal_ultimo:
  "k = ''journal_revista'' \<Longrightarrow> k \<notin> fst ` set xs \<Longrightarrow>
   laco_journal ps (xs @ [(k, u)]) =
     xs @ [(k, case com_journal_ref ps of [] \<Rightarrow> u | m # ms \<Rightarrow> Str (limpa_journal (snd (last (m # ms)))))]"
proof (induction ps arbitrary: u)
  case Nil
  then show ?case by (simp add: com_journal_ref_def)
next
  case (Cons p ps)
  obtain sp tx where p: "p = (sp, tx)" by (cases p)
  show ?case
    using Cons.prems Cons.IH p
    by (auto simp: com_journal_ref_def update_ultimo split: list.splits option.splits)
qed

lemma campo_titulo_novo:
  "campo_titulo a [] = [(''titulo'', valor_titulo a)]"
  by (simp add: campo_titulo_def valor_titulo_def)

lemma campo_autores_novo:
  "''autores'' \<notin> fst ` set xs \<Longrightarrow> campo_autores a xs = xs @ [(''autores'', valor_autores a)]"
  by (simp add: campo_autores_def valor_autores_def update_novo split: option.splits)

lemma campo_abstract_novo:
  "''abstract'' \<notin> fst ` set xs \<Longrightarrow>
   campo_abstract a xs = xs @ [(''abstract'', Str (texto_abstract a))]"
  by (simp add: campo_abstract_def texto_abstract_def update_novo Let_def split: option.splits)

lemma campo_keywords_novo:
  "''keywords'' \<notin> fst ` set xs \<Longrightarrow> map_of xs ''abstract'' = Some (Str t) \<Longrightarrow>
   campo_keywords kw xs =
     (case kw t of Inl e \<Rightarrow> Inl e | Inr kws \<Rightarrow> Inr (xs @ [(''keywords'', Lista (map fst kws))]))"
  by (simp add: campo_keywords_def item_def seguir_def update_novo split: sum.splits)

lemma item_ultimo:
  "k \<notin> fst ` set xs \<Longrightarrow> item (xs @ [(k, v)]) k = Inr v"
  by (simp add: item_def map_add_def map_of_eq_None_iff[THEN iffD2])

lemma campo_categorias_novo:
  assumes "''categorias'' \<notin> fst ` set xs"
  shows "campo_categorias a xs =
     Inr (xs @ [(''categorias'', Lista (map strip (spans_is_link a) @ map strip (spans_is_grey a)))])"
  using assms
  by (simp add: campo_categorias_def Let_def update_novo update_ultimo item_ultimo seguir_def)

lemma grupo_nao_zero:
  assumes "re_search_ano None s = Some g"
  shows "int_de_digitos g \<noteq> 0"
proof -
  from assms re_search_ano_inicio[of s]
  obtain i where "token_ano s i" "g = take 4 (drop i s)" by auto
  with ano_na_faixa[of s i] show ?thesis by simp
qed

lemma campo_ano_novo:
  assumes "''ano'' \<notin> fst ` set xs"
  shows "campo_ano a xs = Inr (xs @ [(''ano'', valor_ano a)])"
  using assms
  by (auto simp: campo_ano_def valor_ano_def Let_def update_novo update_ultimo seguir_def
      primeiro_split antes_do_ponto_e_virgula_def grupo_nao_zero split: option.splits)

lemma campo_journal_novo:
  assumes "''journal_revista'' \<notin> fst ` set xs"
  shows "campo_journal a xs = xs @ [(''journal_revista'', valor_journal a)]"
  using assms laco_journal_ultimo[OF refl assms, of "ps_comments a" "Str ''N/A''"]
  by (auto simp: campo_journal_def valor_journal_def Let_def update_novo com_journal_ref_def)

lemma dados_artigo_forma:
  "dados_artigo kw a =
     (case kw (texto_abstract a) of
        Inl e \<Rightarrow> Inl e
      | Inr kws \<Rightarrow>
          Inr [(''titulo'', valor_titulo a), (''autores'', valor_autores a),
               (''abstract'', Str (texto_abstract a)), (''keywords'', Lista (map fst kws)),
               (''categorias'', Lista (map strip (spans_is_link a) @ map strip (spans_is_grey a))),
               (''ano'', valor_ano a), (''journal_revista'', valor_journal a)])"
  by (simp add: dados_artigo_def campo_titulo_novo campo_autores_novo campo_abstract_novo
      campo_keywords_novo campo_categorias_novo campo_ano_novo campo_journal_novo seguir_def
      split: sum.splits)

lemma dados_artigo_Inr:
  assumes "dados_artigo kw a = Inr d"
  shows "\<exists>kws. kw (texto_abstract a) = Inr kws \<and>
     d = [(''titulo'', valor_titulo a), (''autores'', valor_autores a),
          (''abstract'', Str (texto_abstract a)), (''keywords'', Lista (map fst kws)),
          (''categorias'', Lista (map strip (spans_is_link a) @ map strip (spans_is_grey a))),
          (''ano'', valor_ano a), (''journal_revista'', valor_journal a)]"
  using assms unfolding dados_artigo_forma by (cases "kw (texto_abstract a)") auto

lemma dados_artigo_campos:
  assumes "dados_artigo kw a = Inr d"
  shows "map fst d = sete_campos"
    and "item d ''autores'' = Inr (valor_autores a)"
    and "item d ''abstract'' = Inr (Str (texto_abstract a))"
    and "item d ''categorias'' =
           Inr (Lista (map strip (spans_is_link a) @ map strip (spans_is_grey a)))"
    and "item d ''ano'' = Inr (valor_ano a)"
    and "item d ''journal_revista'' = Inr (valor_journal a)"
  using dados_artigo_Inr[OF assms] by (auto simp: sete_campos_def item_def)


lemma valor_ano_valido:
  "valor_ano a = Str ''N/A'' \<or> (\<exists>y. valor_ano a = Inteiro y \<and> 2000 \<le> y \<and> y \<le> 2099)"
proof (cases "p_is_size_7 a")
  case None
  then show ?thesis by (simp add: valor_ano_def)
next
  case (Some texto)
  show ?thesis
  proof (cases "re_search_ano None (antes_do_ponto_e_virgula texto)")
    case None
    with Some show ?thesis by (simp add: valor_ano_def)
  next
    case (Some g)
    with re_search_ano_inicio[of "antes_do_ponto_e_virgula texto"]
    obtain i where "token_ano (antes_do_ponto_e_virgula texto) i"
      "g = take 4 (drop i (antes_do_ponto_e_virgula texto))" by auto
    with ano_na_faixa[of "antes_do_ponto_e_virgula texto" i] Some \<open>p_is_size_7 a = Some texto\<close>
    show ?thesis by (simp add: valor_ano_def)
  qed
qed

lemma dados_artigo_ano_valido:
  assumes "dados_artigo kw a = Inr d"
  shows "ano_valido d"
  using dados_artigo_campos(5)[OF assms] valor_ano_valido[of a]
  by (auto simp: ano_valido_def)

lemma dados_artigo_sete_campos:
  assumes "dados_artigo kw a = Inr d"
  shows "tem_sete_campos d"
  using dados_artigo_Inr[OF assms] by (auto simp: tem_sete_campos_def sete_campos_def)

lemma valor_ano_token:
  assumes "p_is_size_7 a = Some texto"
    and "token_ano (antes_do_ponto_e_virgula texto) i"
    and "\<forall>j<i. \<not> token_ano (antes_do_ponto_e_virgula texto) j"
  shows "valor_ano a = Inteiro (int_de_digitos (take 4 (drop i (antes_do_ponto_e_virgula texto))))"
proof -
  let ?pre = "antes_do_ponto_e_virgula texto"
  show ?thesis
  proof (cases "re_search_ano None ?pre")
    case None
    with re_search_ano_inicio[of ?pre] assms(2) show ?thesis by simp
  next
    case (Some g)
    with re_search_ano_inicio[of ?pre] obtain k where k: "token_ano ?pre k"
      "\<forall>j<k. \<not> token_ano ?pre j" "g = take 4 (drop k ?pre)" by auto
    from k(1,2) assms(2,3) have "k = i" by (meson linorder_neqE_nat)
    with k(3) Some assms(1) show ?thesis by (simp add: valor_ano_def)
  qed
qed

lemma valor_ano_sem_token:
  assumes "p_is_size_7 a = Some texto"
    and "\<forall>i. \<not> token_ano (antes_do_ponto_e_virgula texto) i"
  shows "valor_ano a = Str ''N/A''"
proof (cases "re_search_ano None (antes_do_ponto_e_virgula texto)")
  case None
  with assms(1) show ?thesis by (simp add: valor_ano_def)
next
  case (Some g)
  with re_search_ano_inicio[of "antes_do_ponto_e_virgula texto"] assms(2) show ?thesis by auto
qed

lemma valor_ano_valor_do_token:
  assumes "p_is_size_7 a = Some texto"
    and "token_ano (antes_do_ponto_e_virgula texto) i"
    and "\<forall>j<i. \<not> token_ano (antes_do_ponto_e_virgula texto) j"
  shows "valor_ano a = Inteiro (valor_do_token (antes_do_ponto_e_virgula texto) i)"
  using valor_ano_token[OF assms] int_de_digitos_valor_do_token[OF assms(2)] by simp

subsection \<open>The loop\<close>

lemma processar_anexa:
  "processar kw bs todos = (fst (processar kw bs []), todos @ snd (processar kw bs []))"
proof (induction bs arbitrary: todos)
  case Nil
  then show ?case by simp
next
  case (Cons b bs)
  show ?case
  proof (cases "dados_artigo kw b")
    case (Inl e)
    then show ?thesis by simp
  next
    case (Inr d)
    then show ?thesis
      using Cons.IH[of "todos @ [d]"] Cons.IH[of "[d]"] by simp
  qed
qed

lemma processar_tudo:
  "map (dados_artigo kw) bs = map Inr ds \<Longrightarrow> processar kw bs todos = (None, todos @ ds)"
  by (induction bs arbitrary: ds todos) auto

lemma processar_falha:
  "map (dados_artigo kw) antes = map Inr ds \<Longrightarrow> dados_artigo kw b = Inl e \<Longrightarrow>
   processar kw (antes @ b # depois) todos = (Some e, todos @ ds)"
  by (induction antes arbitrary: ds todos) auto

lemma processar_invariante:
  assumes P: "\<And>a d. dados_artigo kw a = Inr d \<Longrightarrow> P d"
  shows "processar kw bs todos = (e, todos') \<Longrightarrow> \<forall>d\<in>set todos. P d \<Longrightarrow> \<forall>d\<in>set todos'. P d"
proof (induction bs arbitrary: todos)
  case Nil
  then show ?case by simp
next
  case (Cons b bs)
  show ?case
  proof (cases "dados_artigo kw b")
    case (Inl x)
    with Cons.prems show ?thesis by simp
  next
    case (Inr d)
    then have "P d" by (rule P)
    with Cons.prems(2) have "\<forall>x\<in>set (todos @ [d]). P x" by simp
    moreover from Cons.prems(1) Inr have "processar kw bs (todos @ [d]) = (e, todos')" by simp
    ultimately show ?thesis by (rule Cons.IH[rotated])
  qed
qed

lemma processar_comprimento:
  "processar kw bs todos = (None, todos') \<Longrightarrow> length todos' = length todos + length bs"
  by (induction bs arbitrary: todos) (auto split: sum.splits)

lemma passo_Inr:
  assumes "passo get kw s t r = Inr (s', t', r')"
  shows "\<exists>bs. get s = Inr bs \<and> bs \<noteq> [] \<and> processar kw bs t = (None, t') \<and> s' = s + 200 \<and> r' = r @ [s]"
  using assms by (auto simp: passo_def split: sum.splits if_splits prod.splits option.splits)

lemma passo_invariante:
  assumes P: "\<And>a d. dados_artigo kw a = Inr d \<Longrightarrow> P d" and t: "\<forall>d\<in>set t. P d"
  shows "(case passo get kw s t r of
            Inl f \<Rightarrow> \<forall>d\<in>set (todos_os_artigos f). P d
          | Inr (s', t', r') \<Rightarrow> \<forall>d\<in>set t'. P d)"
proof (cases "get s")
  case (Inl x)
  with t show ?thesis by (simp add: passo_def)
next
  case (Inr bs)
  obtain e t' where pr: "processar kw bs t = (e, t')" by (cases "processar kw bs t")
  have "\<forall>d\<in>set t'. P d"
    using processar_invariante[of kw P bs t e t', OF P pr t] .
  with Inr pr t show ?thesis
    by (cases e) (simp_all add: passo_def)
qed

lemma laco_invariante:
  assumes P: "\<And>a d. dados_artigo kw a = Inr d \<Longrightarrow> P d"
    and run: "laco get kw s t r = Some f"
    and ini: "\<forall>d\<in>set t. P d"
  shows "\<forall>d\<in>set (todos_os_artigos f). P d"
proof -
  let ?Q = "\<lambda>(g :: web) k (s :: nat) t (r :: nat list) f.
              k = kw \<longrightarrow> (\<forall>d\<in>set t. P d) \<longrightarrow> (\<forall>d\<in>set (todos_os_artigos f). P d)"
  have "?Q get kw s t r f"
  proof (rule laco.raw_induct[where P = ?Q, OF _ run])
    fix laco' g k s t r f
    assume IH: "\<And>g k s t r f. laco' g k s t r = Some f \<Longrightarrow> ?Q g k s t r f"
      and step: "(case passo g k s t r of Inl f \<Rightarrow> Some f
                  | Inr (s', t', r') \<Rightarrow> laco' g k s' t' r') = Some f"
    show "?Q g k s t r f"
    proof (intro impI)
      assume k: "k = kw" and t: "\<forall>d\<in>set t. P d"
      show "\<forall>d\<in>set (todos_os_artigos f). P d"
      proof (cases "passo g kw s t r")
        case (Inl f')
        with step k have "f' = f" by simp
        with passo_invariante[of kw P t g s r, OF P t] Inl show ?thesis by simp
      next
        case (Inr e)
        obtain s' t' r' where e: "e = (s', t', r')" by (cases e)
        with passo_invariante[of kw P t g s r, OF P t] Inr have t': "\<forall>d\<in>set t'. P d" by simp
        from step Inr e k have "laco' g kw s' t' r' = Some f" by simp
        from IH[OF this] t' show ?thesis by simp
      qed
    qed
  qed
  with ini show ?thesis by simp
qed

lemma laco_iteracao:
  "iteracao get kw n = Some (s, t, r) \<Longrightarrow> laco get kw 0 [] [] = laco get kw s t r"
proof (induction n arbitrary: s t r)
  case 0
  then show ?case by simp
next
  case (Suc n)
  then obtain s0 t0 r0 where i: "iteracao get kw n = Some (s0, t0, r0)"
    and p: "passo get kw s0 t0 r0 = Inr (s, t, r)"
    by (auto split: option.splits sum.splits)
  have "laco get kw 0 [] [] = laco get kw s0 t0 r0" using Suc.IH[OF i] .
  also have "\<dots> = laco get kw s t r"
    by (subst laco.simps) (simp add: p)
  finally show ?case .
qed

lemma iteracao_forma:
  "iteracao get kw n = Some (s, t, r) \<Longrightarrow>
   s = 200 * n \<and> r = map (\<lambda>i. 200 * i) [0..<n] \<and>
   t = concat (map (registros_da_pagina get kw) [0..<n])"
proof (induction n arbitrary: s t r)
  case 0
  then show ?case by simp
next
  case (Suc n)
  then obtain s0 t0 r0 where i: "iteracao get kw n = Some (s0, t0, r0)"
    and p: "passo get kw s0 t0 r0 = Inr (s, t, r)"
    by (auto split: option.splits sum.splits)
  from Suc.IH[OF i] have ih: "s0 = 200 * n" "r0 = map (\<lambda>i. 200 * i) [0..<n]"
    "t0 = concat (map (registros_da_pagina get kw) [0..<n])" by simp_all
  from passo_Inr[OF p] obtain bs where bs: "get s0 = Inr bs" "processar kw bs t0 = (None, t)"
    "s = s0 + 200" "r = r0 @ [s0]" by blast
  have "t = t0 @ snd (processar kw bs [])"
    using processar_anexa[of kw bs t0] bs(2) by simp
  moreover have "registros_da_pagina get kw n = snd (processar kw bs [])"
    using bs(1) ih(1) by (simp add: registros_da_pagina_def)
  ultimately show ?case using ih bs by simp
qed

lemma laco_para:
  "passo get kw s t r = Inl f \<Longrightarrow> laco get kw s t r = Some f"
  by (subst laco.simps) simp

lemma execucao_para:
  assumes "iteracao get kw n = Some (s, t, r)" and "passo get kw s t r = Inl f"
  shows "extrair_dados_arxiv_json get kw disco =
           Some (motivo f, requisicoes f, salvar disco (todos_os_artigos f))"
  using laco_iteracao[OF assms(1)] laco_para[OF assms(2)]
  by (simp add: extrair_dados_arxiv_json_def)

lemma iteracao_invariante:
  assumes P: "\<And>a d. dados_artigo kw a = Inr d \<Longrightarrow> P d"
  shows "iteracao get kw n = Some (s, t, r) \<Longrightarrow> \<forall>d\<in>set t. P d"
proof (induction n arbitrary: s t r)
  case 0
  then show ?case by simp
next
  case (Suc n)
  then obtain s0 t0 r0 where i: "iteracao get kw n = Some (s0, t0, r0)"
    and p: "passo get kw s0 t0 r0 = Inr (s, t, r)"
    by (auto split: option.splits sum.splits)
  from Suc.IH[OF i] have "\<forall>d\<in>set t0. P d" .
  from passo_invariante[of kw P t0 get s0 r0, OF P this] p show ?case by simp
qed

lemma iteracao_comprimento:
  "iteracao get kw n = Some (s, t, r) \<Longrightarrow>
   length t = sum_list (map (\<lambda>i. length (blocos_da_pagina get i)) [0..<n])"
proof (induction n arbitrary: s t r)
  case 0
  then show ?case by simp
next
  case (Suc n)
  then obtain s0 t0 r0 where i: "iteracao get kw n = Some (s0, t0, r0)"
    and p: "passo get kw s0 t0 r0 = Inr (s, t, r)"
    by (auto split: option.splits sum.splits)
  from iteracao_forma[OF i] have s0: "s0 = 200 * n" by simp
  from passo_Inr[OF p] obtain bs where bs: "get s0 = Inr bs" "processar kw bs t0 = (None, t)"
    by blast
  from bs(1) s0 have "blocos_da_pagina get n = bs" by (simp add: blocos_da_pagina_def)
  with processar_comprimento[OF bs(2)] Suc.IH[OF i] show ?case by simp
qed

lemma processar_replicate:
  "dados_artigo kw b = Inr d \<Longrightarrow> processar kw (replicate m b) todos = (None, todos @ replicate m d)"
  by (rule processar_tudo) simp

subsection \<open>The examples\<close>

lemma dados_bloco_vazio: "dados_artigo modelo_mudo bloco_vazio = Inr registro_vazio"
  by (simp add: dados_artigo_forma modelo_mudo_def bloco_vazio_def registro_vazio_def
      texto_abstract_def valor_titulo_def valor_autores_def valor_ano_def valor_journal_def
      com_journal_ref_def)

lemma iteracao_uma_pagina:
  "iteracao web_uma_pagina modelo_mudo (Suc 0) = Some (200, [registro_vazio], [0])"
  by (simp add: passo_def web_uma_pagina_def dados_bloco_vazio)

lemma dados_bloco_exemplo: "dados_artigo modelo_mudo bloco_exemplo = Inr registro_exemplo"
  by code_simp

lemma iteracao_duas_paginas:
  "iteracao web_duas_paginas modelo_mudo 2 = Some (400, replicate 400 registro_vazio, [0, 200])"
proof -
  have r: "replicate 200 registro_vazio @ replicate 200 registro_vazio = replicate 400 registro_vazio"
    by (simp add: replicate_add[symmetric])
  have ne: "replicate 200 bloco_vazio \<noteq> []" by simp
  have p0: "passo web_duas_paginas modelo_mudo 0 [] [] = Inr (200, replicate 200 registro_vazio, [0])"
    using ne by (simp add: passo_def web_duas_paginas_def processar_replicate[OF dados_bloco_vazio])
  have p1: "passo web_duas_paginas modelo_mudo 200 (replicate 200 registro_vazio) [0] =
          Inr (400, replicate 400 registro_vazio, [0, 200])"
    using ne r by (simp add: passo_def web_duas_paginas_def processar_replicate[OF dados_bloco_vazio])
  have "iteracao web_duas_paginas modelo_mudo (Suc (Suc 0)) =
          Some (400, replicate 400 registro_vazio, [0, 200])"
    by (simp add: p0 p1)
  then show ?thesis by (simp add: numeral_2_eq_2)
qed

lemma dados_bloco_x:
  "dados_artigo modelo_falho (bloco_vazio\<lparr>span_abstract_full := Some ''x''\<rparr>) = Inl OutraExcecao"
  by code_simp

lemma dados_bloco_vazio_falho: "dados_artigo modelo_falho bloco_vazio = Inr registro_vazio"
  by code_simp

lemma iteracao_exemplo:
  "iteracao web_exemplo modelo_mudo (Suc 0) = Some (200, [registro_exemplo], [0])"
  by (simp add: passo_def web_exemplo_def dados_bloco_exemplo)

lemma laco_exemplo:
  "laco web_exemplo modelo_mudo 0 [] [] =
     Some \<lparr>motivo = Concluida, todos_os_artigos = [registro_exemplo], requisicoes = [0, 200]\<rparr>"
proof -
  have "passo web_exemplo modelo_mudo 200 [registro_exemplo] [0] =
     Inl \<lparr>motivo = Concluida, todos_os_artigos = [registro_exemplo], requisicoes = [0, 200]\<rparr>"
    by (simp add: passo_def web_exemplo_def)
  from laco_para[OF this] laco_iteracao[OF iteracao_exemplo] show ?thesis by simp
qed

section \<open>The claims\<close>

subsection \<open>The loop and the saved file\<close>

text \<open>
  C3. Whenever a run reaches an iteration whose page has no result block, the function
  returns, the loop having been left by the \<^verbatim>\<open>break\<close> of the empty page; the request for
  that page is the last of the run, and the offsets requested are 0, 200, ... up to it,
  each once.
\<close>

theorem pagina_vazia_encerra:
  assumes "iteracao get kw n = Some (s, t, r)" and "get s = Inr []"
  shows "extrair_dados_arxiv_json get kw disco = Some (Concluida, r @ [s], salvar disco t) \<and>
         r @ [s] = map (\<lambda>i. 200 * i) [0..<Suc n]"
proof -
  have "passo get kw s t r =
          Inl \<lparr>motivo = Concluida, todos_os_artigos = t, requisicoes = r @ [s]\<rparr>"
    using assms(2) by (simp add: passo_def)
  from execucao_para[OF assms(1) this, of disco] iteracao_forma[OF assms(1)]
  show ?thesis by simp
qed

theorem pagina_vazia_encerra_witness:
  "iteracao web_uma_pagina modelo_mudo 1 = Some (200, [registro_vazio], [0]) \<and>
   web_uma_pagina 200 = Inr [] \<and>
   extrair_dados_arxiv_json web_uma_pagina modelo_mudo True =
     Some (Concluida, [0, 200], Gravado [registro_vazio])"
proof -
  have i: "iteracao web_uma_pagina modelo_mudo 1 = Some (200, [registro_vazio], [0])"
    using iteracao_uma_pagina by simp
  have w: "web_uma_pagina 200 = Inr []" by (simp add: web_uma_pagina_def)
  from pagina_vazia_encerra[OF i w, of True] i w show ?thesis
    by (simp add: salvar_def)
qed

text \<open>
  C4, as stated, fails when the first request already fails: nothing has been
  accumulated and no file is written.
\<close>

theorem falha_sem_registros_counterexample:
  "web_fora_do_ar 0 = Inl RequestException \<and>
   extrair_dados_arxiv_json web_fora_do_ar modelo_mudo True =
     Some (Interrompida RequestException, [0], NenhumArtigo)"
proof -
  have "passo web_fora_do_ar modelo_mudo 0 [] [] =
          Inl \<lparr>motivo = Interrompida RequestException, todos_os_artigos = [],
               requisicoes = [0]\<rparr>"
    by (simp add: passo_def web_fora_do_ar_def)
  from laco_para[OF this] show ?thesis
    by (simp add: extrair_dados_arxiv_json_def salvar_def web_fora_do_ar_def)
qed

text \<open>
  C4, amended. When the request of an iteration the run reaches fails with a
  \<^verbatim>\<open>RequestException\<close>, the function returns after that request, the offsets requested
  being 0, 200, ... up to the failing one, each once; the accumulator is the records of
  the pages before, as many as their blocks; it is written to the file when it is not
  empty and the write succeeds, and no file is written when it is empty.
\<close>

theorem falha_de_transporte:
  assumes "iteracao get kw n = Some (s, t, r)" and "get s = Inl RequestException"
  shows "extrair_dados_arxiv_json get kw disco =
           Some (Interrompida RequestException, map (\<lambda>i. 200 * i) [0..<Suc n],
                 if t = [] then NenhumArtigo else if disco then Gravado t else ErroAoSalvar) \<and>
         t = concat (map (registros_da_pagina get kw) [0..<n]) \<and>
         length t = sum_list (map (\<lambda>i. length (blocos_da_pagina get i)) [0..<n])"
proof -
  have "passo get kw s t r =
          Inl \<lparr>motivo = Interrompida RequestException, todos_os_artigos = t,
               requisicoes = r @ [s]\<rparr>"
    using assms(2) by (simp add: passo_def)
  from execucao_para[OF assms(1) this, of disco] iteracao_forma[OF assms(1)]
    iteracao_comprimento[OF assms(1)]
  show ?thesis by (simp add: salvar_def)
qed

theorem falha_de_transporte_witness:
  "iteracao web_duas_paginas modelo_mudo 2 = Some (400, replicate 400 registro_vazio, [0, 200]) \<and>
   web_duas_paginas 400 = Inl RequestException \<and>
   extrair_dados_arxiv_json web_duas_paginas modelo_mudo True =
     Some (Interrompida RequestException, [0, 200, 400], Gravado (replicate 400 registro_vazio)) \<and>
   length (replicate 400 registro_vazio) = 400"
proof -
  have w: "web_duas_paginas 400 = Inl RequestException" by (simp add: web_duas_paginas_def)
  have u: "map (\<lambda>i. 200 * i) [0..<Suc 2] = [0, 200, 400::nat]"
    by (simp add: numeral_2_eq_2)
  have e: "extrair_dados_arxiv_json web_duas_paginas modelo_mudo True =
     Some (Interrompida RequestException, [0, 200, 400], Gravado (replicate 400 registro_vazio))"
    using falha_de_transporte[OF iteracao_duas_paginas w, of True, THEN conjunct1]
    unfolding u by simp
  show ?thesis
    by (intro conjI iteracao_duas_paginas w e length_replicate)
qed

text \<open>
  C10. When the run reaches a page whose first blocks (at least one) give their records
  and whose next block raises an exception, the function returns with the loop left by
  that exception, and the accumulator handed to the save is the one before the page
  followed by the records of those first blocks: it is not empty, so the save is
  attempted, and the file written (when the write succeeds) holds them.
\<close>

theorem falha_no_meio_da_pagina:
  assumes "iteracao get kw n = Some (s, t, r)"
    and "get s = Inr (antes @ b # depois)"
    and "antes \<noteq> []"
    and "map (dados_artigo kw) antes = map Inr ds"
    and "dados_artigo kw b = Inl e"
  shows "extrair_dados_arxiv_json get kw disco =
           Some (Interrompida e, r @ [s], if disco then Gravado (t @ ds) else ErroAoSalvar) \<and>
         length ds = length antes"
proof -
  have len: "length ds = length antes"
    using assms(4) by (metis length_map)
  with assms(3) have ne: "t @ ds \<noteq> []" by auto
  have "processar kw (antes @ b # depois) t = (Some e, t @ ds)"
    using assms(4,5) by (rule processar_falha)
  then have "passo get kw s t r =
          Inl \<lparr>motivo = Interrompida e, todos_os_artigos = t @ ds, requisicoes = r @ [s]\<rparr>"
    using assms(2) by (simp add: passo_def)
  from execucao_para[OF assms(1) this, of disco] ne len
  show ?thesis by (simp add: salvar_def)
qed

theorem falha_no_meio_da_pagina_witness:
  "iteracao web_tres_blocos modelo_falho 0 = Some (0, [], []) \<and>
   web_tres_blocos 0 =
     Inr ([bloco_vazio, bloco_vazio] @ bloco_vazio\<lparr>span_abstract_full := Some ''x''\<rparr> # []) \<and>
   map (dados_artigo modelo_falho) [bloco_vazio, bloco_vazio] =
     map Inr [registro_vazio, registro_vazio] \<and>
   dados_artigo modelo_falho (bloco_vazio\<lparr>span_abstract_full := Some ''x''\<rparr>) = Inl OutraExcecao \<and>
   extrair_dados_arxiv_json web_tres_blocos modelo_falho True =
     Some (Interrompida OutraExcecao, [0], Gravado [registro_vazio, registro_vazio])"
proof -
  have i: "iteracao web_tres_blocos modelo_falho 0 = Some (0, [], [])" by simp
  have w: "web_tres_blocos 0 =
     Inr ([bloco_vazio, bloco_vazio] @ bloco_vazio\<lparr>span_abstract_full := Some ''x''\<rparr> # [])"
    by (simp add: web_tres_blocos_def)
  have ne: "[bloco_vazio, bloco_vazio] \<noteq> []" by simp
  have m: "map (dados_artigo modelo_falho) [bloco_vazio, bloco_vazio] =
     map Inr [registro_vazio, registro_vazio]"
    by (simp add: dados_bloco_vazio_falho)
  have e: "extrair_dados_arxiv_json web_tres_blocos modelo_falho True =
     Some (Interrompida OutraExcecao, [0], Gravado [registro_vazio, registro_vazio])"
    using falha_no_meio_da_pagina[OF i w ne m dados_bloco_x, of True, THEN conjunct1] by simp
  show ?thesis by (intro conjI i w m dados_bloco_x e)
qed

subsection \<open>Invariants of the accumulator\<close>

text \<open>
  C5. Every record of the accumulator, at the start of every iteration a run reaches and
  when the loop is left, has the seven keys \<^verbatim>\<open>titulo\<close>, \<^verbatim>\<open>autores\<close>, \<^verbatim>\<open>abstract\<close>,
  \<^verbatim>\<open>keywords\<close>, \<^verbatim>\<open>categorias\<close>, \<^verbatim>\<open>ano\<close>, \<^verbatim>\<open>journal_revista\<close>, each with a value.
\<close>

theorem sete_campos_presentes:
  "(iteracao get kw n = Some (s, t, r) \<longrightarrow> (\<forall>d\<in>set t. tem_sete_campos d)) \<and>
   (laco get kw 0 [] [] = Some f \<longrightarrow> (\<forall>d\<in>set (todos_os_artigos f). tem_sete_campos d))"
proof (intro conjI impI)
  assume "iteracao get kw n = Some (s, t, r)"
  then show "\<forall>d\<in>set t. tem_sete_campos d"
    by (rule iteracao_invariante[rotated]) (erule dados_artigo_sete_campos)
next
  assume "laco get kw 0 [] [] = Some f"
  then show "\<forall>d\<in>set (todos_os_artigos f). tem_sete_campos d"
    by (rule laco_invariante[rotated]) (simp, erule dados_artigo_sete_campos)
qed

theorem sete_campos_presentes_witness:
  "iteracao web_exemplo modelo_mudo 1 = Some (200, [registro_exemplo], [0]) \<and>
   laco web_exemplo modelo_mudo 0 [] [] =
     Some \<lparr>motivo = Concluida, todos_os_artigos = [registro_exemplo], requisicoes = [0, 200]\<rparr> \<and>
   tem_sete_campos registro_exemplo \<and>
   map fst registro_exemplo =
     [''titulo'', ''autores'', ''abstract'', ''keywords'', ''categorias'', ''ano'',
      ''journal_revista'']"
proof -
  have i: "iteracao web_exemplo modelo_mudo 1 = Some (200, [registro_exemplo], [0])"
    using iteracao_exemplo by simp
  from sete_campos_presentes[of web_exemplo modelo_mudo 1 200 "[registro_exemplo]" "[0]"
      "\<lparr>motivo = Concluida, todos_os_artigos = [registro_exemplo], requisicoes = [0, 200]\<rparr>"]
    i laco_exemplo
  have t: "tem_sete_campos registro_exemplo" by simp
  then have "map fst registro_exemplo = sete_campos" by (simp add: tem_sete_campos_def)
  with t i laco_exemplo show ?thesis by (simp add: sete_campos_def)
qed

text \<open>
  C9. In every record of the accumulator, at the start of every iteration a run reaches
  and when the loop is left, the year is the string \<^verbatim>\<open>N/A\<close> or an integer from 2000 to
  2099.
\<close>

theorem ano_na_faixa_do_seculo:
  "(iteracao get kw n = Some (s, t, r) \<longrightarrow> (\<forall>d\<in>set t. ano_valido d)) \<and>
   (laco get kw 0 [] [] = Some f \<longrightarrow> (\<forall>d\<in>set (todos_os_artigos f). ano_valido d))"
proof (intro conjI impI)
  assume "iteracao get kw n = Some (s, t, r)"
  then show "\<forall>d\<in>set t. ano_valido d"
    by (rule iteracao_invariante[rotated]) (erule dados_artigo_ano_valido)
next
  assume "laco get kw 0 [] [] = Some f"
  then show "\<forall>d\<in>set (todos_os_artigos f). ano_valido d"
    by (rule laco_invariante[rotated]) (simp, erule dados_artigo_ano_valido)
qed

theorem ano_na_faixa_do_seculo_witness:
  "iteracao web_exemplo modelo_mudo 1 = Some (200, [registro_exemplo], [0]) \<and>
   laco web_exemplo modelo_mudo 0 [] [] =
     Some \<lparr>motivo = Concluida, todos_os_artigos = [registro_exemplo], requisicoes = [0, 200]\<rparr> \<and>
   ano_valido registro_exemplo \<and> item registro_exemplo ''ano'' = Inr (Inteiro 2022)"
proof -
  have i: "iteracao web_exemplo modelo_mudo 1 = Some (200, [registro_exemplo], [0])"
    using iteracao_exemplo by simp
  from ano_na_faixa_do_seculo[of web_exemplo modelo_mudo 1 200 "[registro_exemplo]" "[0]"
      "\<lparr>motivo = Concluida, todos_os_artigos = [registro_exemplo], requisicoes = [0, 200]\<rparr>"]
    i laco_exemplo
  have t: "ano_valido registro_exemplo" by simp
  have "item registro_exemplo ''ano'' = Inr (Inteiro 2022)"
    by (simp add: registro_exemplo_def item_def)
  with t i laco_exemplo show ?thesis by simp
qed

subsection \<open>The fields of a record\<close>



text \<open>
  C2, as stated, fails: with two comments paragraphs that carry the label, the record
  holds the text of the second one, not of the first.
\<close>

theorem journal_do_primeiro_counterexample:
  "com_journal_ref (ps_comments bloco_dois_journals) =
     [(Some ''Journal ref:'', ''Journal ref: A''), (Some ''Journal ref:'', ''Journal ref: B'')] \<and>
   limpa_journal ''Journal ref: A'' = ''A'' \<and>
   dados_artigo modelo_mudo bloco_dois_journals =
     Inr [(''titulo'', Str ''N/A''), (''autores'', Str ''N/A''), (''abstract'', Str ''N/A''),
          (''keywords'', Lista []), (''categorias'', Lista []), (''ano'', Str ''N/A''),
          (''journal_revista'', Str ''B'')]"
  by code_simp

text \<open>
  C2, amended. The journal reference is \<^verbatim>\<open>N/A\<close> when no comments paragraph has a first
  \<^verbatim>\<open>span\<close> that mentions \<^verbatim>\<open>Journal ref\<close>; otherwise it is the text of the last such
  paragraph with every \<^verbatim>\<open>Journal ref:\<close> removed, then trimmed of whitespace, of double
  quotes and of whitespace again. The text of the example gives
  \<^verbatim>\<open>Phys. Rev. A 101, 2020\<close>.
\<close>

theorem journal_do_ultimo:
  assumes "dados_artigo kw a = Inr d"
  shows "(com_journal_ref (ps_comments a) = [] \<longrightarrow> item d ''journal_revista'' = Inr (Str ''N/A'')) \<and>
         (com_journal_ref (ps_comments a) \<noteq> [] \<longrightarrow>
            item d ''journal_revista'' =
              Inr (Str (limpa_journal (snd (last (com_journal_ref (ps_comments a))))))) \<and>
         limpa_journal (''Journal ref: '' @ [CHR 0x22] @ ''Phys. Rev. A 101, 2020'' @ [CHR 0x22]) =
           ''Phys. Rev. A 101, 2020''"
proof -
  have "limpa_journal (''Journal ref: '' @ [CHR 0x22] @ ''Phys. Rev. A 101, 2020'' @ [CHR 0x22]) =
           ''Phys. Rev. A 101, 2020''"
    by code_simp
  with dados_artigo_campos(6)[OF assms] show ?thesis
    by (auto simp: valor_journal_def split: list.splits)
qed

theorem journal_do_ultimo_witness:
  "dados_artigo modelo_mudo bloco_exemplo = Inr registro_exemplo \<and>
   com_journal_ref (ps_comments bloco_exemplo) \<noteq> [] \<and>
   item registro_exemplo ''journal_revista'' = Inr (Str ''Phys. Rev. A 101, 2020'')"
proof -
  have c: "com_journal_ref (ps_comments bloco_exemplo) =
     [(Some ''Journal ref:'', ''Journal ref: '' @ [CHR 0x22] @ ''Phys. Rev. A 101, 2020'' @ [CHR 0x22])]"
    by code_simp
  then have ne: "com_journal_ref (ps_comments bloco_exemplo) \<noteq> []" by simp
  from journal_do_ultimo[OF dados_bloco_exemplo] ne
  have "item registro_exemplo ''journal_revista'' =
          Inr (Str (limpa_journal (snd (last (com_journal_ref (ps_comments bloco_exemplo))))))"
    by blast
  moreover from journal_do_ultimo[OF dados_bloco_exemplo]
  have "limpa_journal (''Journal ref: '' @ [CHR 0x22] @ ''Phys. Rev. A 101, 2020'' @ [CHR 0x22]) =
           ''Phys. Rev. A 101, 2020''" by blast
  ultimately have "item registro_exemplo ''journal_revista'' = Inr (Str ''Phys. Rev. A 101, 2020'')"
    unfolding c by simp
  with dados_bloco_exemplo ne show ?thesis by blast
qed

text \<open>
  C6. With an authors element of text \<open>t\<close>, the authors are what the specification
  describes: the label \<^verbatim>\<open>Authors:\<close> removed, the whitespace runs collapsed to one space,
  the text split at the commas and every piece trimmed (the two intermediate trims of
  the script change nothing of that result). Without the element the entry is the string
  \<^verbatim>\<open>N/A\<close>. The text of the example gives the three names, and a text with line breaks
  and a run of blanks inside a name gives the names with one space.
\<close>

theorem autores_conforme:
  assumes "dados_artigo kw a = Inr d"
  shows "(\<forall>t. p_authors a = Some t \<longrightarrow> item d ''autores'' = Inr (Lista (spec_autores t))) \<and>
         (p_authors a = None \<longrightarrow> item d ''autores'' = Inr (Str ''N/A'')) \<and>
         (p_authors a = Some ''Authors: A. Smith, B. Jones,  C. Lee'' \<longrightarrow>
            item d ''autores'' = Inr (Lista [''A. Smith'', ''B. Jones'', ''C. Lee''])) \<and>
         (p_authors a = Some (''Authors:'' @ [CHR 0x0A] @ ''  A.   Smith, '' @ [CHR 0x0A] @ ''  B. Jones'') \<longrightarrow>
            item d ''autores'' = Inr (Lista [''A. Smith'', ''B. Jones'']))"
proof -
  have e1: "map strip (split CHR '','' (strip (re_sub_espacos (strip
              (replace_vazio ''Authors:'' ''Authors: A. Smith, B. Jones,  C. Lee''))))) =
            [''A. Smith'', ''B. Jones'', ''C. Lee'']"
    by code_simp
  have e2: "map strip (split CHR '','' (strip (re_sub_espacos (strip
              (replace_vazio ''Authors:''
                 (''Authors:'' @ [CHR 0x0A] @ ''  A.   Smith, '' @ [CHR 0x0A] @ ''  B. Jones'')))))) =
            [''A. Smith'', ''B. Jones'']"
    by code_simp
  have v: "item d ''autores'' = Inr (valor_autores a)"
    using assms by (rule dados_artigo_campos(2))
  have "p_authors a = Some t \<longrightarrow> item d ''autores'' = Inr (Lista (spec_autores t))" for t
    unfolding v by (simp add: valor_autores_def autores_refina_spec)
  moreover have "p_authors a = None \<longrightarrow> item d ''autores'' = Inr (Str ''N/A'')"
    unfolding v by (simp add: valor_autores_def)
  moreover have "p_authors a = Some ''Authors: A. Smith, B. Jones,  C. Lee'' \<longrightarrow>
            item d ''autores'' = Inr (Lista [''A. Smith'', ''B. Jones'', ''C. Lee''])"
    unfolding v using e1 by (simp add: valor_autores_def)
  moreover have "p_authors a = Some (''Authors:'' @ [CHR 0x0A] @ ''  A.   Smith, '' @ [CHR 0x0A] @ ''  B. Jones'') \<longrightarrow>
            item d ''autores'' = Inr (Lista [''A. Smith'', ''B. Jones''])"
    unfolding v using e2 by (simp add: valor_autores_def)
  ultimately show ?thesis by blast
qed

theorem autores_conforme_witness:
  "dados_artigo modelo_mudo bloco_exemplo = Inr registro_exemplo \<and>
   p_authors bloco_exemplo = Some ''Authors: A. Smith, B. Jones,  C. Lee'' \<and>
   spec_autores ''Authors: A. Smith, B. Jones,  C. Lee'' = [''A. Smith'', ''B. Jones'', ''C. Lee''] \<and>
   item registro_exemplo ''autores'' = Inr (Lista [''A. Smith'', ''B. Jones'', ''C. Lee''])"
proof -
  have p: "p_authors bloco_exemplo = Some ''Authors: A. Smith, B. Jones,  C. Lee''"
    by (simp add: bloco_exemplo_def)
  have s: "spec_autores ''Authors: A. Smith, B. Jones,  C. Lee'' =
             [''A. Smith'', ''B. Jones'', ''C. Lee'']"
    by code_simp
  from autores_conforme[OF dados_bloco_exemplo] p
  have "item registro_exemplo ''autores'' =
          Inr (Lista (spec_autores ''Authors: A. Smith, B. Jones,  C. Lee''))"
    by blast
  then have "item registro_exemplo ''autores'' = Inr (Lista [''A. Smith'', ''B. Jones'', ''C. Lee''])"
    unfolding s .
  with dados_bloco_exemplo p s show ?thesis by blast
qed

text \<open>
  C7. With a metadata paragraph of text \<open>texto\<close>, the year is the integer denoted by the
  four digits at the first position of the text before the first semicolon where a
  standalone token \<^verbatim>\<open>20dd\<close> stands, and the string \<^verbatim>\<open>N/A\<close> when there is no such
  position. The text of the example gives 2022, not 2023; tokens glued to a letter, a
  digit or an underscore are passed over; a year that does not start with 20 is not
  taken, nor is one after the semicolon.
\<close>

theorem ano_do_primeiro_token:
  assumes "dados_artigo kw a = Inr d" and "p_is_size_7 a = Some texto"
  shows "(\<forall>i. token_ano (antes_do_ponto_e_virgula texto) i \<and>
              (\<forall>j<i. \<not> token_ano (antes_do_ponto_e_virgula texto) j) \<longrightarrow>
              item d ''ano'' = Inr (Inteiro (valor_do_token (antes_do_ponto_e_virgula texto) i))) \<and>
         ((\<forall>i. \<not> token_ano (antes_do_ponto_e_virgula texto) i) \<longrightarrow>
              item d ''ano'' = Inr (Str ''N/A'')) \<and>
         (texto = ''Submitted on 3 Jan 2022; revised 10 Feb 2023'' \<longrightarrow>
              item d ''ano'' = Inr (Inteiro 2022)) \<and>
         (texto = ''v2020 2021_ 20ab 12022 2023; 2024'' \<longrightarrow>
              item d ''ano'' = Inr (Inteiro 2023)) \<and>
         (texto = ''Submitted in 1999; revised 2024'' \<longrightarrow>
              item d ''ano'' = Inr (Str ''N/A''))"
proof -
  have v: "item d ''ano'' = Inr (valor_ano a)"
    using assms(1) by (rule dados_artigo_campos(5))
  have e1: "(case re_search_ano None
              (antes_do_ponto_e_virgula ''Submitted on 3 Jan 2022; revised 10 Feb 2023'') of
              None \<Rightarrow> Str ''N/A'' | Some grupo \<Rightarrow> Inteiro (int_de_digitos grupo)) = Inteiro 2022"
    by code_simp
  have e2: "(case re_search_ano None
              (antes_do_ponto_e_virgula ''v2020 2021_ 20ab 12022 2023; 2024'') of
              None \<Rightarrow> Str ''N/A'' | Some grupo \<Rightarrow> Inteiro (int_de_digitos grupo)) = Inteiro 2023"
    by code_simp
  have e3: "(case re_search_ano None
              (antes_do_ponto_e_virgula ''Submitted in 1999; revised 2024'') of
              None \<Rightarrow> Str ''N/A'' | Some grupo \<Rightarrow> Inteiro (int_de_digitos grupo)) = Str ''N/A''"
    by code_simp
  have "texto = ''Submitted on 3 Jan 2022; revised 10 Feb 2023'' \<longrightarrow> valor_ano a = Inteiro 2022"
    using assms(2) e1 by (simp add: valor_ano_def)
  moreover have "texto = ''v2020 2021_ 20ab 12022 2023; 2024'' \<longrightarrow> valor_ano a = Inteiro 2023"
    using assms(2) e2 by (simp add: valor_ano_def)
  moreover have "texto = ''Submitted in 1999; revised 2024'' \<longrightarrow> valor_ano a = Str ''N/A''"
    using assms(2) e3 by (simp add: valor_ano_def)
  ultimately show ?thesis
    unfolding v
    using valor_ano_valor_do_token[OF assms(2)] valor_ano_sem_token[OF assms(2)]
    by simp
qed

theorem ano_do_primeiro_token_witness:
  "dados_artigo modelo_mudo bloco_exemplo = Inr registro_exemplo \<and>
   p_is_size_7 bloco_exemplo = Some ''Submitted on 3 Jan 2022; revised 10 Feb 2023'' \<and>
   antes_do_ponto_e_virgula ''Submitted on 3 Jan 2022; revised 10 Feb 2023'' =
     ''Submitted on 3 Jan 2022'' \<and>
   token_ano ''Submitted on 3 Jan 2022'' 19 \<and>
   list_all (\<lambda>j. \<not> token_ano ''Submitted on 3 Jan 2022'' j) [0..<19] \<and>
   valor_do_token ''Submitted on 3 Jan 2022'' 19 = 2022 \<and>
   item registro_exemplo ''ano'' = Inr (Inteiro 2022)"
proof -
  have p: "p_is_size_7 bloco_exemplo = Some ''Submitted on 3 Jan 2022; revised 10 Feb 2023''"
    by (simp add: bloco_exemplo_def)
  have pre: "antes_do_ponto_e_virgula ''Submitted on 3 Jan 2022; revised 10 Feb 2023'' =
     ''Submitted on 3 Jan 2022''"
    by code_simp
  have tk: "token_ano ''Submitted on 3 Jan 2022'' 19" by code_simp
  have la: "list_all (\<lambda>j. \<not> token_ano ''Submitted on 3 Jan 2022'' j) [0..<19]" by code_simp
  then have nt: "\<forall>j<19. \<not> token_ano ''Submitted on 3 Jan 2022'' j"
    by (simp add: list_all_iff)
  have v: "valor_do_token ''Submitted on 3 Jan 2022'' 19 = 2022" by code_simp
  from ano_do_primeiro_token[OF dados_bloco_exemplo p, THEN conjunct1, rule_format, of 19]
    tk nt
  have "item registro_exemplo ''ano'' = Inr (Inteiro 2022)"
    unfolding pre v by blast
  with dados_bloco_exemplo p pre tk la v show ?thesis by blast
qed

text \<open>
  C8, as stated, fails: the record holds the trimmed texts of the tags, which are not
  the texts when a tag has whitespace around its text.
\<close>

theorem categorias_sem_aparar_counterexample:
  "spans_is_link bloco_tag_com_espacos @ spans_is_grey bloco_tag_com_espacos = ['' cs.AI ''] \<and>
   dados_artigo modelo_mudo bloco_tag_com_espacos =
     Inr [(''titulo'', Str ''N/A''), (''autores'', Str ''N/A''), (''abstract'', Str ''N/A''),
          (''keywords'', Lista []), (''categorias'', Lista [''cs.AI'']), (''ano'', Str ''N/A''),
          (''journal_revista'', Str ''N/A'')]"
  by code_simp

text \<open>
  C8, amended. The categories are the trimmed texts of the tags of the first class, in
  document order, followed by the trimmed texts of the tags of the second class, in
  document order; the tags of the example give the three categories in that order, and
  the list is empty when there is no tag of either class.
\<close>

theorem categorias_concatenadas:
  assumes "dados_artigo kw a = Inr d"
  shows "item d ''categorias'' =
           Inr (Lista (map strip (spans_is_link a) @ map strip (spans_is_grey a))) \<and>
         (spans_is_link a = [''cs.AI'', ''quant-ph''] \<and> spans_is_grey a = [''physics.gen-ph'']
            \<longrightarrow> item d ''categorias'' = Inr (Lista [''cs.AI'', ''quant-ph'', ''physics.gen-ph''])) \<and>
         (spans_is_link a = [] \<and> spans_is_grey a = [] \<longrightarrow> item d ''categorias'' = Inr (Lista []))"
proof -
  have "map strip [''cs.AI'', ''quant-ph''] @ map strip [''physics.gen-ph''] =
        [''cs.AI'', ''quant-ph'', ''physics.gen-ph'']"
    by code_simp
  with dados_artigo_campos(4)[OF assms] show ?thesis by auto
qed

theorem categorias_concatenadas_witness:
  "dados_artigo modelo_mudo bloco_exemplo = Inr registro_exemplo \<and>
   spans_is_link bloco_exemplo = [''cs.AI'', ''quant-ph''] \<and>
   spans_is_grey bloco_exemplo = [''physics.gen-ph''] \<and>
   item registro_exemplo ''categorias'' = Inr (Lista [''cs.AI'', ''quant-ph'', ''physics.gen-ph''])"
proof -
  have l: "spans_is_link bloco_exemplo = [''cs.AI'', ''quant-ph'']"
    and g: "spans_is_grey bloco_exemplo = [''physics.gen-ph'']"
    by (simp_all add: bloco_exemplo_def)
  from categorias_concatenadas[OF dados_bloco_exemplo] l g
  have "item registro_exemplo ''categorias'' = Inr (Lista [''cs.AI'', ''quant-ph'', ''physics.gen-ph''])"
    by blast
  with dados_bloco_exemplo l g show ?thesis by blast
qed

end
